theory Spec2Isabelle
  imports Complex_Main "HOL-Library.Log_Nat"
begin

section \<open>The environment interface\<close>

text \<open>
  The wrappers of \<^verbatim>\<open>assignment3/utils.py\<close> decorate a gym environment. An
  observation is a numeric array; the pipeline is the RAM pipeline, so a frame is a
  one-dimensional array, modelled as a list of integers. A reward is a Python float.
  Every Python exception is a value of \<open>error\<close>.
\<close>

type_synonym frame = "int list"

datatype error = AssertionError | IndexError | ValueError | UnboundLocalError

section \<open>Python floats\<close>

text \<open>
  A Python float is an IEEE 754 binary64 value. Every finite one is a whole number of
  units, a unit being 2 to the power -1074, with at most 53 significant bits and magnitude
  below 2 to the power 1024: \<open>Finite k\<close> is the float of \<open>k\<close> units, with
  \<open>Finite 0\<close> the float \<^verbatim>\<open>0.0\<close>, and \<open>NegZero\<close> is \<^verbatim>\<open>-0.0\<close>.
\<close>

datatype pyfloat = Finite int | NegZero | PosInf | NegInf | NaN

text \<open>The value 1.0 and the value 2 to the power 1024, in units.\<close>

definition units_per_one :: int where
  "units_per_one = 2 ^ 1074"

definition overflow_units :: int where
  "overflow_units = 2 ^ (1074 + 1024)"

text \<open>Rounding an integer to 53 significant bits, to nearest, ties to even.\<close>

definition round53 :: "int \<Rightarrow> int" where
  "round53 k =
     (let a = \<bar>k\<bar>;
          sh = nat (bitlen a - 53);
          q = a div 2 ^ sh;
          r = a mod 2 ^ sh;
          q' = (if 2 * r > 2 ^ sh \<or> (2 * r = 2 ^ sh \<and> odd q) then q + 1 else q)
      in sgn k * (q' * 2 ^ sh))"

text \<open>
  The float nearest to a number of units; a rounded magnitude of 2 to the power 1024 or
  more is infinite.
\<close>

definition of_units :: "int \<Rightarrow> pyfloat" where
  "of_units k =
     (let k' = round53 k
      in if k' \<ge> overflow_units then PosInf
         else if k' \<le> - overflow_units then NegInf
         else Finite k')"

text \<open>
  Python's \<^verbatim>\<open>x + y\<close> on floats. A sum of two finite floats is a whole number of units,
  so it is exact below the normal range and rounded above it; an exact zero sum is
  \<^verbatim>\<open>0.0\<close> unless both operands are \<^verbatim>\<open>-0.0\<close>.
\<close>

fun float_add :: "pyfloat \<Rightarrow> pyfloat \<Rightarrow> pyfloat" where
  "float_add NaN y = NaN"
| "float_add x NaN = NaN"
| "float_add PosInf NegInf = NaN"
| "float_add NegInf PosInf = NaN"
| "float_add PosInf y = PosInf"
| "float_add x PosInf = PosInf"
| "float_add NegInf y = NegInf"
| "float_add x NegInf = NegInf"
| "float_add NegZero y = y"
| "float_add x NegZero = x"
| "float_add (Finite a) (Finite b) = of_units (a + b)"

text \<open>
  The integer \<open>n\<close> as a number of units: \<open>py n\<close> has the value \<open>n\<close>. It is
  a float when \<open>n\<close> has at most 53 significant bits, so for every \<open>n\<close> of
  magnitude at most 2 to the power 53.
\<close>

definition py :: "int \<Rightarrow> pyfloat" where
  "py n = Finite (n * units_per_one)"

text \<open>\<^verbatim>\<open>np.sign(x)\<close> on a float: the sign of a NaN is that NaN, the sign of a zero is 0.\<close>

fun np_sign :: "pyfloat \<Rightarrow> pyfloat" where
  "np_sign NaN = NaN"
| "np_sign PosInf = py 1"
| "np_sign NegInf = py (- 1)"
| "np_sign NegZero = py 0"
| "np_sign (Finite k) = (if k > 0 then py 1 else if k < 0 then py (- 1) else py 0)"

text \<open>
  The methods of an environment object over its mutable fields \<open>'s\<close>:
  \<^verbatim>\<open>reset()\<close>, \<^verbatim>\<open>step(action)\<close>, \<^verbatim>\<open>unwrapped.ale.lives()\<close> and
  \<^verbatim>\<open>unwrapped.get_action_meanings()\<close>. The global generator of \<^verbatim>\<open>np.random\<close>
  has state \<open>'g\<close>; only \<^verbatim>\<open>reset\<close> can reach it.

  A wrapper class overrides \<^verbatim>\<open>_step\<close> and \<^verbatim>\<open>_reset\<close>, which \<^verbatim>\<open>step\<close> and
  \<^verbatim>\<open>reset\<close> of \<^verbatim>\<open>gym.Wrapper\<close> dispatch to; a method it does not override
  delegates to the inner environment, and \<^verbatim>\<open>unwrapped\<close> reaches the base
  environment through every layer. A wrapper with mutable fields of its own extends the
  fields of the inner environment by a record; an exception leaves no fields behind.
\<close>

record ('s, 'g, 'i) env =
  reset :: "'s \<Rightarrow> 'g \<Rightarrow> error + (frame \<times> 's \<times> 'g)"
  step :: "int \<Rightarrow> 's \<Rightarrow> error + ((frame \<times> pyfloat \<times> bool \<times> 'i) \<times> 's)"
  ale_lives :: "'s \<Rightarrow> int"
  get_action_meanings :: "string list"

text \<open>An environment handle is an object: its methods and its current fields.\<close>

type_synonym ('s, 'g, 'i) handle = "('s, 'g, 'i) env \<times> 's"

section \<open>EpisodicLifeEnv\<close>

record 's episodic_life =
  el_env :: 's
  lives :: int
  was_real_done :: bool
  was_real_reset :: bool

definition EpisodicLifeEnv_step ::
  "('s, 'g, 'i) env \<Rightarrow> int \<Rightarrow> 's episodic_life
    \<Rightarrow> error + ((frame \<times> pyfloat \<times> bool \<times> 'i) \<times> 's episodic_life)" where
  "EpisodicLifeEnv_step e action self =
     (case step e action (el_env self) of
        Inl err \<Rightarrow> Inl err
      | Inr ((obs, reward, done, info), s') \<Rightarrow>
          (let self1 = self\<lparr>el_env := s', was_real_done := done\<rparr>;
               cur = ale_lives e s';
               done' = (if cur < lives self1 \<and> cur > 0 then True else done);
               self2 = self1\<lparr>lives := cur\<rparr>
           in Inr ((obs, reward, done', info), self2)))"

definition EpisodicLifeEnv_reset ::
  "('s, 'g, 'i) env \<Rightarrow> 's episodic_life \<Rightarrow> 'g \<Rightarrow> error + (frame \<times> 's episodic_life \<times> 'g)" where
  "EpisodicLifeEnv_reset e self g =
     (if was_real_done self then
        (case reset e (el_env self) g of
           Inl err \<Rightarrow> Inl err
         | Inr (obs, s', g') \<Rightarrow>
             Inr (obs, self\<lparr>el_env := s', was_real_reset := True, lives := ale_lives e s'\<rparr>, g'))
      else
        (case step e 0 (el_env self) of
           Inl err \<Rightarrow> Inl err
         | Inr ((obs, _, _, _), s') \<Rightarrow>
             Inr (obs, self\<lparr>el_env := s', was_real_reset := False, lives := ale_lives e s'\<rparr>, g)))"

definition EpisodicLifeEnv_methods :: "('s, 'g, 'i) env \<Rightarrow> ('s episodic_life, 'g, 'i) env" where
  "EpisodicLifeEnv_methods e =
     \<lparr>reset = EpisodicLifeEnv_reset e,
      step = EpisodicLifeEnv_step e,
      ale_lives = (\<lambda>self. ale_lives e (el_env self)),
      get_action_meanings = get_action_meanings e\<rparr>"

definition EpisodicLifeEnv :: "('s, 'g, 'i) handle \<Rightarrow> ('s episodic_life, 'g, 'i) handle" where
  "EpisodicLifeEnv h =
     (EpisodicLifeEnv_methods (fst h),
      \<lparr>el_env = snd h, lives = 0, was_real_done = True, was_real_reset = False\<rparr>)"

section \<open>Observing the calls a wrapper makes\<close>

text \<open>
  \<open>traced e\<close> is the environment \<open>e\<close> with a log of the calls it received, in order.
  It answers exactly as \<open>e\<close> does.
\<close>

datatype call = Reset | Step int

definition traced :: "('s, 'g, 'i) env \<Rightarrow> ('s \<times> call list, 'g, 'i) env" where
  "traced e =
     \<lparr>reset = (\<lambda>sl g. case reset e (fst sl) g of
                 Inl err \<Rightarrow> Inl err
               | Inr (obs, s', g') \<Rightarrow> Inr (obs, (s', snd sl @ [Reset]), g')),
      step = (\<lambda>a sl. case step e a (fst sl) of
                 Inl err \<Rightarrow> Inl err
               | Inr (r, s') \<Rightarrow> Inr (r, (s', snd sl @ [Step a]))),
      ale_lives = (\<lambda>sl. ale_lives e (fst sl)),
      get_action_meanings = get_action_meanings e\<rparr>"

section \<open>Library operations the wrappers use\<close>

text \<open>Python's \<^verbatim>\<open>xs[i]\<close> for a non-negative index: out of range raises.\<close>

definition getitem :: "'a list \<Rightarrow> nat \<Rightarrow> error + 'a" where
  "getitem xs i = (if i < length xs then Inr (xs ! i) else Inl IndexError)"

text \<open>\<^verbatim>\<open>deque(maxlen=2).append(x)\<close>: a full deque drops its oldest element.\<close>

definition deque_append :: "'a list \<Rightarrow> 'a \<Rightarrow> 'a list" where
  "deque_append d x = (if length d = 2 then tl d @ [x] else d @ [x])"

text \<open>
  \<^verbatim>\<open>np.stack(arrays)\<close> raises on an empty sequence and on arrays of different shapes.
\<close>

definition np_stack :: "frame list \<Rightarrow> error + frame list" where
  "np_stack arrays =
     (case arrays of
        [] \<Rightarrow> Inl ValueError
      | a # as \<Rightarrow> if list_all (\<lambda>b. length b = length a) as then Inr arrays else Inl ValueError)"

text \<open>\<^verbatim>\<open>np.max(stacked, axis=0)\<close> on a stack of at least one array.\<close>

fun np_max_axis0 :: "frame list \<Rightarrow> frame" where
  "np_max_axis0 [] = []"
| "np_max_axis0 [a] = a"
| "np_max_axis0 (a # as) = map2 max a (np_max_axis0 as)"

section \<open>NoopResetEnv\<close>

text \<open>
  \<^verbatim>\<open>np.random.randint(low, high)\<close> is numpy's; it is a parameter \<open>randint\<close> of the
  model, a function of the bounds and the generator's state.
\<close>

type_synonym 'g randint = "int \<Rightarrow> int \<Rightarrow> 'g \<Rightarrow> error + (int \<times> 'g)"

text \<open>
  The loop \<^verbatim>\<open>for _ in range(noops): obs, _, _, _ = self.env.step(0)\<close>; \<open>obs\<close> is
  unbound (\<open>None\<close>) until the first iteration.
\<close>

fun noop_loop :: "('s, 'g, 'i) env \<Rightarrow> nat \<Rightarrow> 's \<Rightarrow> frame option \<Rightarrow> error + ('s \<times> frame option)" where
  "noop_loop e 0 s obs = Inr (s, obs)"
| "noop_loop e (Suc n) s obs =
     (case step e 0 s of
        Inl err \<Rightarrow> Inl err
      | Inr ((obs', _, _, _), s') \<Rightarrow> noop_loop e n s' (Some obs'))"

definition NoopResetEnv_reset ::
  "'g randint \<Rightarrow> ('s, 'g, 'i) env \<Rightarrow> int \<Rightarrow> 's \<Rightarrow> 'g \<Rightarrow> error + (frame \<times> 's \<times> 'g)" where
  "NoopResetEnv_reset randint e noop_max s g =
     (case reset e s g of
        Inl err \<Rightarrow> Inl err
      | Inr (_, s1, g1) \<Rightarrow>
          (case randint 1 (noop_max + 1) g1 of
             Inl err \<Rightarrow> Inl err
           | Inr (noops, g2) \<Rightarrow>
               (case noop_loop e (nat noops) s1 None of
                  Inl err \<Rightarrow> Inl err
                | Inr (s2, None) \<Rightarrow> Inl UnboundLocalError
                | Inr (s2, Some obs) \<Rightarrow> Inr (obs, s2, g2))))"

definition NoopResetEnv_methods ::
  "'g randint \<Rightarrow> ('s, 'g, 'i) env \<Rightarrow> int \<Rightarrow> ('s, 'g, 'i) env" where
  "NoopResetEnv_methods randint e noop_max = e\<lparr>reset := NoopResetEnv_reset randint e noop_max\<rparr>"

definition NoopResetEnv ::
  "'g randint \<Rightarrow> ('s, 'g, 'i) handle \<Rightarrow> int \<Rightarrow> error + ('s, 'g, 'i) handle" where
  "NoopResetEnv randint h noop_max =
     (case getitem (get_action_meanings (fst h)) 0 of
        Inl err \<Rightarrow> Inl err
      | Inr m \<Rightarrow>
          if m = ''NOOP'' then Inr (NoopResetEnv_methods randint (fst h) noop_max, snd h)
          else Inl AssertionError)"

section \<open>FireResetEnv\<close>

definition FireResetEnv_reset :: "('s, 'g, 'i) env \<Rightarrow> 's \<Rightarrow> 'g \<Rightarrow> error + (frame \<times> 's \<times> 'g)" where
  "FireResetEnv_reset e s g =
     (case reset e s g of
        Inl err \<Rightarrow> Inl err
      | Inr (_, s1, g1) \<Rightarrow>
          (case step e 1 s1 of
             Inl err \<Rightarrow> Inl err
           | Inr ((obs, _, _, _), s2) \<Rightarrow>
               (case step e 2 s2 of
                  Inl err \<Rightarrow> Inl err
                | Inr ((obs, _, _, _), s3) \<Rightarrow> Inr (obs, s3, g1))))"

definition FireResetEnv_methods :: "('s, 'g, 'i) env \<Rightarrow> ('s, 'g, 'i) env" where
  "FireResetEnv_methods e = e\<lparr>reset := FireResetEnv_reset e\<rparr>"

definition FireResetEnv :: "('s, 'g, 'i) handle \<Rightarrow> error + ('s, 'g, 'i) handle" where
  "FireResetEnv h =
     (case getitem (get_action_meanings (fst h)) 1 of
        Inl err \<Rightarrow> Inl err
      | Inr m \<Rightarrow>
          if m = ''FIRE'' then
            (if length (get_action_meanings (fst h)) \<ge> 3
             then Inr (FireResetEnv_methods (fst h), snd h)
             else Inl AssertionError)
          else Inl AssertionError)"

section \<open>MaxAndSkipEnv\<close>

record 's max_and_skip =
  ms_env :: 's
  obs_buffer :: "frame list"

text \<open>
  The loop of \<^verbatim>\<open>_step\<close> over \<^verbatim>\<open>range(self._skip)\<close>. The last argument holds
  \<open>done\<close> and \<open>info\<close>: before the first iteration \<open>done\<close> is \<^verbatim>\<open>None\<close> and
  \<open>info\<close> is unbound.
\<close>

fun skip_loop ::
  "('s, 'g, 'i) env \<Rightarrow> int \<Rightarrow> nat \<Rightarrow> 's \<Rightarrow> frame list \<Rightarrow> pyfloat \<Rightarrow> (bool \<times> 'i) option
    \<Rightarrow> error + ('s \<times> frame list \<times> pyfloat \<times> (bool \<times> 'i) option)" where
  "skip_loop e action 0 s buf total_reward latest = Inr (s, buf, total_reward, latest)"
| "skip_loop e action (Suc n) s buf total_reward latest =
     (case step e action s of
        Inl err \<Rightarrow> Inl err
      | Inr ((obs, reward, done, info), s') \<Rightarrow>
          (let buf' = deque_append buf obs;
               total_reward' = float_add total_reward reward
           in if done then Inr (s', buf', total_reward', Some (done, info))
              else skip_loop e action n s' buf' total_reward' (Some (done, info))))"

definition MaxAndSkipEnv_step ::
  "('s, 'g, 'i) env \<Rightarrow> int \<Rightarrow> int \<Rightarrow> 's max_and_skip
    \<Rightarrow> error + ((frame \<times> pyfloat \<times> bool \<times> 'i) \<times> 's max_and_skip)" where
  "MaxAndSkipEnv_step e skip action self =
     (case skip_loop e action (nat skip) (ms_env self) (obs_buffer self) (Finite 0) None of
        Inl err \<Rightarrow> Inl err
      | Inr (s', buf', total_reward, latest) \<Rightarrow>
          (case np_stack buf' of
             Inl err \<Rightarrow> Inl err
           | Inr stacked \<Rightarrow>
               (case latest of
                  None \<Rightarrow> Inl UnboundLocalError
                | Some (done, info) \<Rightarrow>
                    Inr ((np_max_axis0 stacked, total_reward, done, info),
                         self\<lparr>ms_env := s', obs_buffer := buf'\<rparr>))))"

definition MaxAndSkipEnv_reset ::
  "('s, 'g, 'i) env \<Rightarrow> 's max_and_skip \<Rightarrow> 'g \<Rightarrow> error + (frame \<times> 's max_and_skip \<times> 'g)" where
  "MaxAndSkipEnv_reset e self g =
     (case reset e (ms_env self) g of
        Inl err \<Rightarrow> Inl err
      | Inr (obs, s', g') \<Rightarrow>
          Inr (obs, self\<lparr>ms_env := s', obs_buffer := deque_append [] obs\<rparr>, g'))"

definition MaxAndSkipEnv_methods ::
  "('s, 'g, 'i) env \<Rightarrow> int \<Rightarrow> ('s max_and_skip, 'g, 'i) env" where
  "MaxAndSkipEnv_methods e skip =
     \<lparr>reset = MaxAndSkipEnv_reset e,
      step = MaxAndSkipEnv_step e skip,
      ale_lives = (\<lambda>self. ale_lives e (ms_env self)),
      get_action_meanings = get_action_meanings e\<rparr>"

definition MaxAndSkipEnv :: "('s, 'g, 'i) handle \<Rightarrow> int \<Rightarrow> ('s max_and_skip, 'g, 'i) handle" where
  "MaxAndSkipEnv h skip =
     (MaxAndSkipEnv_methods (fst h) skip, \<lparr>ms_env = snd h, obs_buffer = []\<rparr>)"

section \<open>ClippedRewardsWrapper\<close>

definition ClippedRewardsWrapper_step ::
  "('s, 'g, 'i) env \<Rightarrow> int \<Rightarrow> 's \<Rightarrow> error + ((frame \<times> pyfloat \<times> bool \<times> 'i) \<times> 's)" where
  "ClippedRewardsWrapper_step e action s =
     (case step e action s of
        Inl err \<Rightarrow> Inl err
      | Inr ((obs, reward, done, info), s') \<Rightarrow> Inr ((obs, np_sign reward, done, info), s'))"

definition ClippedRewardsWrapper_methods :: "('s, 'g, 'i) env \<Rightarrow> ('s, 'g, 'i) env" where
  "ClippedRewardsWrapper_methods e = e\<lparr>step := ClippedRewardsWrapper_step e\<rparr>"

definition ClippedRewardsWrapper :: "('s, 'g, 'i) handle \<Rightarrow> ('s, 'g, 'i) handle" where
  "ClippedRewardsWrapper h = (ClippedRewardsWrapper_methods (fst h), snd h)"

section \<open>wrap_deepmind_ram\<close>

definition wrap_deepmind_ram ::
  "'g randint \<Rightarrow> ('s, 'g, 'i) handle
    \<Rightarrow> error + ('s episodic_life max_and_skip, 'g, 'i) handle" where
  "wrap_deepmind_ram randint env =
     (case NoopResetEnv randint (EpisodicLifeEnv env) 30 of
        Inl err \<Rightarrow> Inl err
      | Inr env2 \<Rightarrow>
          (let env3 = MaxAndSkipEnv env2 4 in
           (case (if ''FIRE'' \<in> set (get_action_meanings (fst env3))
                  then FireResetEnv env3 else Inr env3) of
              Inl err \<Rightarrow> Inl err
            | Inr env4 \<Rightarrow> Inr (ClippedRewardsWrapper env4))))"

section \<open>A caller issuing a sequence of step calls\<close>

fun run ::
  "('s, 'g, 'i) env \<Rightarrow> int list \<Rightarrow> 's \<Rightarrow> error + ((frame \<times> pyfloat \<times> bool \<times> 'i) list \<times> 's)" where
  "run e [] s = Inr ([], s)"
| "run e (a # as) s =
     (case step e a s of
        Inl err \<Rightarrow> Inl err
      | Inr (r, s') \<Rightarrow>
          (case run e as s' of
             Inl err \<Rightarrow> Inl err
           | Inr (rs, s'') \<Rightarrow> Inr (r # rs, s'')))"

abbreviation obs_of :: "frame \<times> pyfloat \<times> bool \<times> 'i \<Rightarrow> frame" where
  "obs_of r \<equiv> fst r"

abbreviation reward_of :: "frame \<times> pyfloat \<times> bool \<times> 'i \<Rightarrow> pyfloat" where
  "reward_of r \<equiv> fst (snd r)"

abbreviation done_of :: "frame \<times> pyfloat \<times> bool \<times> 'i \<Rightarrow> bool" where
  "done_of r \<equiv> fst (snd (snd r))"

abbreviation info_of :: "frame \<times> pyfloat \<times> bool \<times> 'i \<Rightarrow> 'i" where
  "info_of r \<equiv> snd (snd (snd r))"

section \<open>A scripted environment and a scripted generator\<close>

text \<open>
  A test double: its fields are the script of step results still to come, each with the
  life count the emulator shows after it, and the current life count. A step answers
  with the head of the script and the action it received as \<open>info\<close>; a reset
  answers with the frame \<open>[0]\<close>.
\<close>

type_synonym scripted = "(frame \<times> pyfloat \<times> bool \<times> int) list \<times> int"

definition scripted_env :: "string list \<Rightarrow> (scripted, 'g, int) env" where
  "scripted_env meanings =
     \<lparr>reset = (\<lambda>s g. Inr ([0], s, g)),
      step = (\<lambda>a s. case fst s of
                 [] \<Rightarrow> Inr (([0], py 0, True, a), s)
               | (f, r, d, l) # rest \<Rightarrow> Inr ((f, r, d, a), (rest, l))),
      ale_lives = snd,
      get_action_meanings = meanings\<rparr>"

text \<open>A generator that reads its draws from a tape, reduced into the requested range.\<close>

definition tape_randint :: "int list randint" where
  "tape_randint low high g =
     (if high \<le> low then Inl ValueError
      else (case g of
              [] \<Rightarrow> Inr (low, [])
            | x # xs \<Rightarrow> Inr (low + x mod (high - low), xs)))"

section \<open>Sequences of steps without life loss\<close>

text \<open>
  The emulator never reports a life loss along a sequence of steps: the life count read
  after each step is not below the count \<open>l\<close> recorded before it.
\<close>

fun no_life_loss :: "('s, 'g, 'i) env \<Rightarrow> int list \<Rightarrow> int \<Rightarrow> 's \<Rightarrow> bool" where
  "no_life_loss e [] l s = True"
| "no_life_loss e (a # as) l s =
     (case step e a s of
        Inl err \<Rightarrow> True
      | Inr (r, s') \<Rightarrow> l \<le> ale_lives e s' \<and> no_life_loss e as (ale_lives e s') s')"

section \<open>The two most recent elements of a sequence\<close>

definition last_two :: "'a list \<Rightarrow> 'a list" where
  "last_two xs = drop (length xs - 2) xs"

section \<open>The traced environment answers as the environment does\<close>

lemma step_traced:
  "step e a s = Inr (r, s') \<Longrightarrow> step (traced e) a (s, tr) = Inr (r, (s', tr @ [Step a]))"
  by (simp add: traced_def)

lemma reset_traced:
  "reset e s g = Inr (obs, s', g') \<Longrightarrow>
   reset (traced e) (s, tr) g = Inr (obs, (s', tr @ [Reset]), g')"
  by (simp add: traced_def)

lemma ale_lives_traced: "ale_lives (traced e) (s, tr) = ale_lives e s"
  by (simp add: traced_def)

lemma run_length: "run e acts s = Inr (rs, s') \<Longrightarrow> length rs = length acts"
  by (induction acts arbitrary: s rs) (auto split: sum.splits prod.splits)

lemma run_traced:
  "run (traced e) acts (s, tr) =
     (case run e acts s of
        Inl err \<Rightarrow> Inl err
      | Inr (rs, s') \<Rightarrow> Inr (rs, (s', tr @ map Step acts)))"
proof (induction acts arbitrary: s tr)
  case Nil
  show ?case by simp
next
  case (Cons a acts)
  show ?case
  proof (cases "step e a s")
    case (Inl err)
    then show ?thesis by (simp add: traced_def)
  next
    case (Inr p)
    obtain r s1 where p: "p = (r, s1)" by (cases p)
    have st: "step (traced e) a (s, tr) = Inr (r, (s1, tr @ [Step a]))"
      using Inr p by (simp add: step_traced)
    show ?thesis
      using Inr p st Cons.IH [of s1 "tr @ [Step a]"]
      by (simp split: sum.splits prod.splits)
  qed
qed

section \<open>The scripted environment and the action meanings of wrappers\<close>

lemma scripted_env_simps:
  "reset (scripted_env m) s g = Inr ([0], s, g)"
  "step (scripted_env m) a ([], l) = Inr (([0], py 0, True, a), ([], l))"
  "step (scripted_env m) a ((f, r, d, l') # rest, l) = Inr ((f, r, d, a), (rest, l'))"
  "ale_lives (scripted_env m) s = snd s"
  "get_action_meanings (scripted_env m) = m"
  by (simp_all add: scripted_env_def)

lemma get_action_meanings_wrappers:
  "get_action_meanings (EpisodicLifeEnv_methods e) = get_action_meanings e"
  "get_action_meanings (NoopResetEnv_methods randint e noop_max) = get_action_meanings e"
  "get_action_meanings (MaxAndSkipEnv_methods e skip) = get_action_meanings e"
  "get_action_meanings (FireResetEnv_methods e) = get_action_meanings e"
  "get_action_meanings (ClippedRewardsWrapper_methods e) = get_action_meanings e"
  by (simp_all add: EpisodicLifeEnv_methods_def NoopResetEnv_methods_def
      MaxAndSkipEnv_methods_def FireResetEnv_methods_def ClippedRewardsWrapper_methods_def)

section \<open>EpisodicLifeEnv: step and reset\<close>

text \<open>
  Claim C2. A step of EpisodicLifeEnv makes one step of the inner environment with the same
  action. It records the inner \<open>done\<close> in \<open>was_real_done\<close>, reads the life count
  of the emulator after that step, returns \<open>done\<close> overridden to true exactly when that
  count is below the recorded \<open>lives\<close> and above zero, stores the count in
  \<open>lives\<close>, and passes observation, reward and info through unchanged.
\<close>

theorem EpisodicLifeEnv_step_spec:
  assumes "step e action s = Inr ((obs, reward, done, info), s')"
  shows "step (EpisodicLifeEnv_methods (traced e)) action
           \<lparr>el_env = (s, tr), lives = l, was_real_done = wd, was_real_reset = wr\<rparr> =
         Inr ((obs, reward, done \<or> (ale_lives e s' < l \<and> 0 < ale_lives e s'), info),
              \<lparr>el_env = (s', tr @ [Step action]), lives = ale_lives e s',
               was_real_done = done, was_real_reset = wr\<rparr>)"
  using step_traced [OF assms, of tr]
  by (auto simp add: EpisodicLifeEnv_methods_def EpisodicLifeEnv_step_def ale_lives_traced Let_def)

theorem EpisodicLifeEnv_step_spec_witness:
  "step (EpisodicLifeEnv_methods (traced (scripted_env [''NOOP''] :: (scripted, unit, int) env))) 4
     \<lparr>el_env = (([([1], py 5, False, 2)], 3), []), lives = 3, was_real_done = True,
      was_real_reset = False\<rparr> =
   Inr (([1], py 5, True, 4),
        \<lparr>el_env = (([], 2), [Step 4]), lives = 2, was_real_done = False,
         was_real_reset = False\<rparr>)"
  using EpisodicLifeEnv_step_spec
    [of "scripted_env [''NOOP''] :: (scripted, unit, int) env" 4 "([([1], py 5, False, 2)], 3)"
        "[1]" "py 5" False 4 "([], 2)" "[]" 3 True False]
  by (simp add: scripted_env_def)

text \<open>
  Claim C3. A reset of EpisodicLifeEnv with \<open>was_real_done\<close> set makes exactly one call
  of the inner environment, its reset; with \<open>was_real_done\<close> clear it makes exactly one
  call, a step with action 0, and no reset. Either way \<open>lives\<close> becomes the life count
  of the emulator after that call and the observation of that call is returned.
\<close>

theorem EpisodicLifeEnv_reset_spec:
  "(wd \<longrightarrow> reset e s g = Inr (obs, s', g') \<longrightarrow>
      reset (EpisodicLifeEnv_methods (traced e))
        \<lparr>el_env = (s, tr), lives = l, was_real_done = wd, was_real_reset = wr\<rparr> g =
      Inr (obs, \<lparr>el_env = (s', tr @ [Reset]), lives = ale_lives e s',
                 was_real_done = wd, was_real_reset = True\<rparr>, g')) \<and>
   (\<not> wd \<longrightarrow> step e 0 s = Inr ((obs, reward, done, info), s') \<longrightarrow>
      reset (EpisodicLifeEnv_methods (traced e))
        \<lparr>el_env = (s, tr), lives = l, was_real_done = wd, was_real_reset = wr\<rparr> g =
      Inr (obs, \<lparr>el_env = (s', tr @ [Step 0]), lives = ale_lives e s',
                 was_real_done = wd, was_real_reset = False\<rparr>, g))"
proof (intro conjI impI)
  assume "wd" and r: "reset e s g = Inr (obs, s', g')"
  then show "reset (EpisodicLifeEnv_methods (traced e))
        \<lparr>el_env = (s, tr), lives = l, was_real_done = wd, was_real_reset = wr\<rparr> g =
      Inr (obs, \<lparr>el_env = (s', tr @ [Reset]), lives = ale_lives e s',
                 was_real_done = wd, was_real_reset = True\<rparr>, g')"
    using reset_traced [OF r, of tr]
    by (simp add: EpisodicLifeEnv_methods_def EpisodicLifeEnv_reset_def ale_lives_traced)
next
  assume "\<not> wd" and r: "step e 0 s = Inr ((obs, reward, done, info), s')"
  then show "reset (EpisodicLifeEnv_methods (traced e))
        \<lparr>el_env = (s, tr), lives = l, was_real_done = wd, was_real_reset = wr\<rparr> g =
      Inr (obs, \<lparr>el_env = (s', tr @ [Step 0]), lives = ale_lives e s',
                 was_real_done = wd, was_real_reset = False\<rparr>, g)"
    using step_traced [OF r, of tr]
    by (simp add: EpisodicLifeEnv_methods_def EpisodicLifeEnv_reset_def ale_lives_traced)
qed

theorem EpisodicLifeEnv_reset_spec_witness:
  "reset (EpisodicLifeEnv_methods (traced (scripted_env [''NOOP''] :: (scripted, unit, int) env)))
     \<lparr>el_env = (([([1], py 5, False, 2)], 3), []), lives = 0, was_real_done = True,
      was_real_reset = False\<rparr> () =
   Inr ([0], \<lparr>el_env = (([([1], py 5, False, 2)], 3), [Reset]), lives = 3,
              was_real_done = True, was_real_reset = True\<rparr>, ()) \<and>
   reset (EpisodicLifeEnv_methods (traced (scripted_env [''NOOP''] :: (scripted, unit, int) env)))
     \<lparr>el_env = (([([1], py 5, False, 2)], 3), []), lives = 3, was_real_done = False,
      was_real_reset = True\<rparr> () =
   Inr ([1], \<lparr>el_env = (([], 2), [Step 0]), lives = 2,
              was_real_done = False, was_real_reset = False\<rparr>, ())"
  using EpisodicLifeEnv_reset_spec
    [of True "scripted_env [''NOOP''] :: (scripted, unit, int) env" "([([1], py 5, False, 2)], 3)"
        "()" "[0]" "([([1], py 5, False, 2)], 3)" "()" "[]" 0 False]
    EpisodicLifeEnv_reset_spec
    [of False "scripted_env [''NOOP''] :: (scripted, unit, int) env" "([([1], py 5, False, 2)], 3)"
        "()" "[1]" "([], 2)" "()" "[]" 3 True "py 5" False 0]
  by (simp add: scripted_env_def)

section \<open>EpisodicLifeEnv along a run without life loss\<close>

lemma EpisodicLifeEnv_run:
  "run e acts s = Inr (rs, s') \<Longrightarrow> no_life_loss e acts l s \<Longrightarrow>
   \<exists>self'. run (EpisodicLifeEnv_methods e) acts
     \<lparr>el_env = s, lives = l, was_real_done = wd, was_real_reset = wr\<rparr> = Inr (rs, self')"
proof (induction acts arbitrary: s rs l wd)
  case Nil
  then show ?case by simp
next
  case (Cons a acts)
  from Cons.prems(1) obtain r s1 rs1 where
    st: "step e a s = Inr (r, s1)" and rn: "run e acts s1 = Inr (rs1, s')" and rs: "rs = r # rs1"
    by (auto split: sum.splits prod.splits)
  from Cons.prems(2) st have ll: "l \<le> ale_lives e s1"
    and nl: "no_life_loss e acts (ale_lives e s1) s1"
    by auto
  obtain ob rw dn inf where r: "r = (ob, rw, dn, inf)" by (cases r)
  have wst: "step (EpisodicLifeEnv_methods e) a
               \<lparr>el_env = s, lives = l, was_real_done = wd, was_real_reset = wr\<rparr> =
             Inr (r, \<lparr>el_env = s1, lives = ale_lives e s1, was_real_done = dn,
                      was_real_reset = wr\<rparr>)"
    using st r ll by (auto simp add: EpisodicLifeEnv_methods_def EpisodicLifeEnv_step_def Let_def)
  from Cons.IH [OF rn nl, of dn] obtain self' where
    "run (EpisodicLifeEnv_methods e) acts
       \<lparr>el_env = s1, lives = ale_lives e s1, was_real_done = dn, was_real_reset = wr\<rparr> =
     Inr (rs1, self')"
    by blast
  then show ?case using wst rs by simp
qed

text \<open>
  Claim C6. Along any finite sequence of step calls during which the emulator never
  reports a life loss, EpisodicLifeEnv returns at every position the \<open>done\<close> the inner
  environment returns there.
\<close>

theorem EpisodicLifeEnv_done_without_life_loss:
  assumes "run e acts s = Inr (rs, s')" and "no_life_loss e acts l s"
  shows "\<exists>rs' self'. run (EpisodicLifeEnv_methods e) acts
           \<lparr>el_env = s, lives = l, was_real_done = wd, was_real_reset = wr\<rparr> = Inr (rs', self') \<and>
         length rs' = length acts \<and>
         (\<forall>i < length acts. done_of (rs' ! i) = done_of (rs ! i))"
  using EpisodicLifeEnv_run [OF assms, of wd wr] run_length [OF assms(1)] by auto

theorem EpisodicLifeEnv_done_without_life_loss_witness:
  "run (scripted_env [''NOOP''] :: (scripted, unit, int) env) [0, 1]
     ([([1], py 5, False, 3), ([2], py 1, True, 4)], 3) =
     Inr ([([1], py 5, False, 0), ([2], py 1, True, 1)], ([], 4)) \<and>
   no_life_loss (scripted_env [''NOOP''] :: (scripted, unit, int) env) [0, 1] 3
     ([([1], py 5, False, 3), ([2], py 1, True, 4)], 3) \<and>
   (\<exists>rs' self'.
      run (EpisodicLifeEnv_methods (scripted_env [''NOOP''] :: (scripted, unit, int) env)) [0, 1]
        \<lparr>el_env = ([([1], py 5, False, 3), ([2], py 1, True, 4)], 3), lives = 3,
         was_real_done = True, was_real_reset = True\<rparr> = Inr (rs', self') \<and>
      length rs' = length [0::int, 1] \<and>
      (\<forall>i < length [0::int, 1].
         done_of (rs' ! i) = done_of ([([1], py 5, False, 0::int), ([2], py 1, True, 1)] ! i)))"
proof -
  have h1: "run (scripted_env [''NOOP''] :: (scripted, unit, int) env) [0, 1]
     ([([1], py 5, False, 3), ([2], py 1, True, 4)], 3) =
     Inr ([([1], py 5, False, 0), ([2], py 1, True, 1)], ([], 4))"
    by (simp add: scripted_env_def)
  have h2: "no_life_loss (scripted_env [''NOOP''] :: (scripted, unit, int) env) [0, 1] 3
     ([([1], py 5, False, 3), ([2], py 1, True, 4)], 3)"
    by (simp add: scripted_env_def)
  show ?thesis
    using h1 h2 EpisodicLifeEnv_done_without_life_loss [OF h1 h2, of True True] by blast
qed

section \<open>EpisodicLifeEnv after construction\<close>

text \<open>
  Claim C10, as stated, fails: the first step taken after construction follows the
  first reset, which stores the life count of the emulator in \<open>lives\<close>. Here the
  emulator shows 3 lives at the reset and 2 after the step; the inner step returns
  \<open>done = False\<close> and the wrapper returns \<open>done = True\<close>.
\<close>

theorem EpisodicLifeEnv_first_step_after_reset_counterexample:
  "reset (fst (EpisodicLifeEnv (scripted_env [''NOOP''] :: (scripted, unit, int) env,
                               ([([1], py 0, False, 2)], 3))))
         (snd (EpisodicLifeEnv (scripted_env [''NOOP''] :: (scripted, unit, int) env,
                               ([([1], py 0, False, 2)], 3)))) () =
     Inr ([0], \<lparr>el_env = ([([1], py 0, False, 2)], 3), lives = 3, was_real_done = True,
                was_real_reset = True\<rparr>, ()) \<and>
   step (scripted_env [''NOOP''] :: (scripted, unit, int) env) 0 ([([1], py 0, False, 2)], 3) =
     Inr (([1], py 0, False, 0), ([], 2)) \<and>
   step (fst (EpisodicLifeEnv (scripted_env [''NOOP''] :: (scripted, unit, int) env,
                              ([([1], py 0, False, 2)], 3)))) 0
        \<lparr>el_env = ([([1], py 0, False, 2)], 3), lives = 3, was_real_done = True,
         was_real_reset = True\<rparr> =
     Inr (([1], py 0, True, 0), \<lparr>el_env = ([], 2), lives = 2, was_real_done = False,
                              was_real_reset = True\<rparr>)"
  by (simp add: EpisodicLifeEnv_def EpisodicLifeEnv_methods_def EpisodicLifeEnv_reset_def
      EpisodicLifeEnv_step_def scripted_env_def)

text \<open>
  Claim C10, amended. Construction sets \<open>lives = 0\<close> and \<open>was_real_done = True\<close>.
  A reset made on that state calls the reset of the inner environment and makes no step;
  a step made on that state, before any reset, returns the inner \<open>done\<close> unchanged.
\<close>

theorem EpisodicLifeEnv_after_construction:
  "EpisodicLifeEnv (traced e, (s, tr)) =
     (EpisodicLifeEnv_methods (traced e),
      \<lparr>el_env = (s, tr), lives = 0, was_real_done = True, was_real_reset = False\<rparr>) \<and>
   (reset e s g = Inr (obs, s', g') \<longrightarrow>
      reset (EpisodicLifeEnv_methods (traced e))
        \<lparr>el_env = (s, tr), lives = 0, was_real_done = True, was_real_reset = False\<rparr> g =
      Inr (obs, \<lparr>el_env = (s', tr @ [Reset]), lives = ale_lives e s',
                 was_real_done = True, was_real_reset = True\<rparr>, g')) \<and>
   (step e action s = Inr ((obs2, reward, done, info), s2) \<longrightarrow>
      step (EpisodicLifeEnv_methods (traced e)) action
        \<lparr>el_env = (s, tr), lives = 0, was_real_done = True, was_real_reset = False\<rparr> =
      Inr ((obs2, reward, done, info),
           \<lparr>el_env = (s2, tr @ [Step action]), lives = ale_lives e s2,
            was_real_done = done, was_real_reset = False\<rparr>))"
proof (intro conjI impI)
  show "EpisodicLifeEnv (traced e, (s, tr)) =
     (EpisodicLifeEnv_methods (traced e),
      \<lparr>el_env = (s, tr), lives = 0, was_real_done = True, was_real_reset = False\<rparr>)"
    by (simp add: EpisodicLifeEnv_def)
next
  assume r: "reset e s g = Inr (obs, s', g')"
  show "reset (EpisodicLifeEnv_methods (traced e))
        \<lparr>el_env = (s, tr), lives = 0, was_real_done = True, was_real_reset = False\<rparr> g =
      Inr (obs, \<lparr>el_env = (s', tr @ [Reset]), lives = ale_lives e s',
                 was_real_done = True, was_real_reset = True\<rparr>, g')"
    using reset_traced [OF r, of tr]
    by (simp add: EpisodicLifeEnv_methods_def EpisodicLifeEnv_reset_def ale_lives_traced)
next
  assume r: "step e action s = Inr ((obs2, reward, done, info), s2)"
  show "step (EpisodicLifeEnv_methods (traced e)) action
        \<lparr>el_env = (s, tr), lives = 0, was_real_done = True, was_real_reset = False\<rparr> =
      Inr ((obs2, reward, done, info),
           \<lparr>el_env = (s2, tr @ [Step action]), lives = ale_lives e s2,
            was_real_done = done, was_real_reset = False\<rparr>)"
    using step_traced [OF r, of tr]
    by (auto simp add: EpisodicLifeEnv_methods_def EpisodicLifeEnv_step_def
        ale_lives_traced Let_def)
qed

theorem EpisodicLifeEnv_after_construction_witness:
  "EpisodicLifeEnv (traced (scripted_env [''NOOP''] :: (scripted, unit, int) env),
                    (([([1], py 5, False, 2)], 3), [])) =
     (EpisodicLifeEnv_methods (traced (scripted_env [''NOOP''])),
      \<lparr>el_env = (([([1], py 5, False, 2)], 3), []), lives = 0, was_real_done = True,
       was_real_reset = False\<rparr>) \<and>
   reset (EpisodicLifeEnv_methods (traced (scripted_env [''NOOP''] :: (scripted, unit, int) env)))
     \<lparr>el_env = (([([1], py 5, False, 2)], 3), []), lives = 0, was_real_done = True,
      was_real_reset = False\<rparr> () =
     Inr ([0], \<lparr>el_env = (([([1], py 5, False, 2)], 3), [Reset]), lives = 3,
                was_real_done = True, was_real_reset = True\<rparr>, ()) \<and>
   step (EpisodicLifeEnv_methods (traced (scripted_env [''NOOP''] :: (scripted, unit, int) env))) 7
     \<lparr>el_env = (([([1], py 5, False, 2)], 3), []), lives = 0, was_real_done = True,
      was_real_reset = False\<rparr> =
     Inr (([1], py 5, False, 7),
          \<lparr>el_env = (([], 2), [Step 7]), lives = 2, was_real_done = False,
           was_real_reset = False\<rparr>)"
  using EpisodicLifeEnv_after_construction
      [of "scripted_env [''NOOP''] :: (scripted, unit, int) env" "([([1], py 5, False, 2)], 3)" "[]"
          "()" "[0]" "([([1], py 5, False, 2)], 3)" "()" 7 "[1]" "py 5" False 7 "([], 2)"]
  by (simp add: scripted_env_simps)

section \<open>Construction checks\<close>

text \<open>
  Claim C7. Construction of NoopResetEnv succeeds exactly when the action-meaning table has
  \<open>NOOP\<close> at index 0, and construction of FireResetEnv exactly when the table has
  \<open>FIRE\<close> at index 1 and at least 3 entries; otherwise construction raises: an
  IndexError when the index is out of range, an AssertionError when an assertion fails.
\<close>

theorem wrapper_construction_checks:
  "NoopResetEnv randint h noop_max =
     (if 0 < length (get_action_meanings (fst h)) \<and> get_action_meanings (fst h) ! 0 = ''NOOP''
      then Inr (NoopResetEnv_methods randint (fst h) noop_max, snd h)
      else Inl (if get_action_meanings (fst h) = [] then IndexError else AssertionError)) \<and>
   FireResetEnv h =
     (if 1 < length (get_action_meanings (fst h)) \<and> get_action_meanings (fst h) ! 1 = ''FIRE''
         \<and> 3 \<le> length (get_action_meanings (fst h))
      then Inr (FireResetEnv_methods (fst h), snd h)
      else Inl (if length (get_action_meanings (fst h)) < 2 then IndexError else AssertionError))"
  by (auto simp add: NoopResetEnv_def FireResetEnv_def getitem_def)

theorem wrapper_construction_checks_witness:
  "NoopResetEnv tape_randint (scripted_env [''NOOP'', ''FIRE'', ''UP''], ([], 3)) 30 =
     Inr (NoopResetEnv_methods tape_randint (scripted_env [''NOOP'', ''FIRE'', ''UP'']) 30, ([], 3)) \<and>
   FireResetEnv (scripted_env [''NOOP'', ''FIRE'', ''UP''] :: (scripted, int list, int) env, ([], 3)) =
     Inr (FireResetEnv_methods (scripted_env [''NOOP'', ''FIRE'', ''UP'']), ([], 3))"
  using wrapper_construction_checks
    [of tape_randint "(scripted_env [''NOOP'', ''FIRE'', ''UP''], ([], 3))" 30]
  by (simp add: scripted_env_simps)

section \<open>FireResetEnv: reset\<close>

text \<open>
  Claim C8. A reset of FireResetEnv makes exactly three calls of the inner environment, in
  this order: reset, a step with action 1, a step with action 2. It returns the observation
  of the second step; the rewards and \<open>done\<close> flags of both steps do not reach the
  caller.
\<close>

theorem FireResetEnv_reset_spec:
  assumes "reset e s g = Inr (obs0, s1, g1)"
    and "step e 1 s1 = Inr ((obs1, r1, d1, i1), s2)"
    and "step e 2 s2 = Inr ((obs2, r2, d2, i2), s3)"
  shows "reset (FireResetEnv_methods (traced e)) (s, tr) g =
         Inr (obs2, (s3, tr @ [Reset, Step 1, Step 2]), g1)"
  using reset_traced [OF assms(1), of tr] step_traced [OF assms(2), of "tr @ [Reset]"]
    step_traced [OF assms(3), of "tr @ [Reset, Step 1]"]
  by (simp add: FireResetEnv_methods_def FireResetEnv_reset_def)

theorem FireResetEnv_reset_spec_witness:
  "reset (FireResetEnv_methods (traced (scripted_env [''NOOP'', ''FIRE'', ''UP''] :: (scripted, unit, int) env)))
     (([([1], py 5, True, 2), ([2], py 7, True, 1)], 3), []) () =
   Inr ([2], (([], 1), [Reset, Step 1, Step 2]), ())"
  using FireResetEnv_reset_spec
    [of "scripted_env [''NOOP'', ''FIRE'', ''UP''] :: (scripted, unit, int) env"
        "([([1], py 5, True, 2), ([2], py 7, True, 1)], 3)" "()" "[0]"
        "([([1], py 5, True, 2), ([2], py 7, True, 1)], 3)" "()" "[1]" "py 5" True 1
        "([([2], py 7, True, 1)], 2)" "[2]" "py 7" True 2 "([], 1)" "[]"]
  by (simp add: scripted_env_simps)

section \<open>wrap_deepmind_ram\<close>

text \<open>
  Claim C4. The composer wraps the base environment in EpisodicLifeEnv, then NoopResetEnv
  with \<open>noop_max = 30\<close>, then MaxAndSkipEnv with \<open>skip = 4\<close>, then FireResetEnv
  exactly when \<open>FIRE\<close> occurs in the action-meaning table, then ClippedRewardsWrapper,
  and returns that handle. When a construction check of NoopResetEnv or FireResetEnv
  fails, it raises that error instead.
\<close>

theorem wrap_deepmind_ram_spec:
  "wrap_deepmind_ram randint (e, s) =
     (if \<not> (0 < length (get_action_meanings e) \<and> get_action_meanings e ! 0 = ''NOOP'') then
        Inl (if get_action_meanings e = [] then IndexError else AssertionError)
      else if ''FIRE'' \<in> set (get_action_meanings e) then
        (if get_action_meanings e ! 1 = ''FIRE'' \<and> 3 \<le> length (get_action_meanings e) then
           Inr (ClippedRewardsWrapper_methods (FireResetEnv_methods (MaxAndSkipEnv_methods
                  (NoopResetEnv_methods randint (EpisodicLifeEnv_methods e) 30) 4)),
                \<lparr>ms_env = \<lparr>el_env = s, lives = 0, was_real_done = True,
                            was_real_reset = False\<rparr>,
                 obs_buffer = []\<rparr>)
         else Inl AssertionError)
      else
        Inr (ClippedRewardsWrapper_methods (MaxAndSkipEnv_methods
               (NoopResetEnv_methods randint (EpisodicLifeEnv_methods e) 30) 4),
             \<lparr>ms_env = \<lparr>el_env = s, lives = 0, was_real_done = True,
                         was_real_reset = False\<rparr>,
              obs_buffer = []\<rparr>))"
proof -
  let ?m = "get_action_meanings e"
  have len: "''FIRE'' \<in> set ?m \<Longrightarrow> ?m ! 0 = ''NOOP'' \<Longrightarrow> 1 < length ?m"
    by (cases ?m; cases "tl ?m") auto
  show ?thesis
    using len
    by (auto simp add: wrap_deepmind_ram_def NoopResetEnv_def FireResetEnv_def getitem_def
        get_action_meanings_wrappers MaxAndSkipEnv_def ClippedRewardsWrapper_def
        EpisodicLifeEnv_def Let_def)
qed

theorem wrap_deepmind_ram_spec_witness:
  "wrap_deepmind_ram tape_randint (scripted_env [''NOOP'', ''FIRE'', ''UP''], ([], 3)) =
     Inr (ClippedRewardsWrapper_methods (FireResetEnv_methods (MaxAndSkipEnv_methods
            (NoopResetEnv_methods tape_randint
               (EpisodicLifeEnv_methods (scripted_env [''NOOP'', ''FIRE'', ''UP''])) 30) 4)),
          \<lparr>ms_env = \<lparr>el_env = ([], 3), lives = 0, was_real_done = True,
                      was_real_reset = False\<rparr>,
           obs_buffer = []\<rparr>) \<and>
   wrap_deepmind_ram tape_randint (scripted_env [''NOOP'', ''UP''], ([], 3)) =
     Inr (ClippedRewardsWrapper_methods (MaxAndSkipEnv_methods
            (NoopResetEnv_methods tape_randint
               (EpisodicLifeEnv_methods (scripted_env [''NOOP'', ''UP''])) 30) 4),
          \<lparr>ms_env = \<lparr>el_env = ([], 3), lives = 0, was_real_done = True,
                      was_real_reset = False\<rparr>,
           obs_buffer = []\<rparr>) \<and>
   wrap_deepmind_ram tape_randint (scripted_env [''NOOP'', ''UP'', ''FIRE''], ([], 3)) =
     Inl AssertionError"
  using wrap_deepmind_ram_spec [of tape_randint "scripted_env [''NOOP'', ''FIRE'', ''UP'']" "([], 3)"]
    wrap_deepmind_ram_spec [of tape_randint "scripted_env [''NOOP'', ''UP'']" "([], 3)"]
    wrap_deepmind_ram_spec [of tape_randint "scripted_env [''NOOP'', ''UP'', ''FIRE'']" "([], 3)"]
  by (simp add: scripted_env_simps)

section \<open>Float addition on small integers\<close>



lemma py_0: "py 0 = Finite 0"
  by (simp add: py_def)

lemma round53_exact:
  assumes "2 ^ nat (bitlen \<bar>k\<bar> - 53) dvd k"
  shows "round53 k = k"
proof -
  let ?sh = "nat (bitlen \<bar>k\<bar> - 53)"
  have d: "(2::int) ^ ?sh dvd \<bar>k\<bar>" using assms by simp
  then have r: "\<bar>k\<bar> mod 2 ^ ?sh = 0" by (simp add: dvd_eq_mod_eq_0)
  have q: "\<bar>k\<bar> div 2 ^ ?sh * 2 ^ ?sh = \<bar>k\<bar>" using d by simp
  have "round53 k = sgn k * (\<bar>k\<bar> div 2 ^ ?sh * 2 ^ ?sh)"
    by (simp add: round53_def Let_def r)
  also have "\<dots> = sgn k * \<bar>k\<bar>" by (simp only: q)
  also have "\<dots> = k" by (simp add: sgn_mult_abs)
  finally show ?thesis .
qed

lemma round53_small_scaled:
  assumes "\<bar>n\<bar> \<le> 2 ^ 53"
  shows "round53 (n * 2 ^ c) = n * 2 ^ c"
proof (cases "n = 0")
  case True
  then show ?thesis by (simp add: round53_def)
next
  case False
  then have pos: "0 < \<bar>n\<bar>" by simp
  have ab: "\<bar>n * 2 ^ c\<bar> = \<bar>n\<bar> * 2 ^ c" by (simp add: abs_mult)
  have bl: "bitlen \<bar>n * 2 ^ c\<bar> = bitlen \<bar>n\<bar> + int c"
    unfolding ab by (rule bitlen_pow2 [OF pos])
  show ?thesis
  proof (cases "\<bar>n\<bar> < 2 ^ 53")
    case True
    then have "bitlen \<bar>n\<bar> \<le> 53" by (simp add: bitlen_le_iff_power)
    then have "nat (bitlen \<bar>n * 2 ^ c\<bar> - 53) \<le> c" using bl by simp
    then have "(2::int) ^ nat (bitlen \<bar>n * 2 ^ c\<bar> - 53) dvd 2 ^ c"
      by (rule le_imp_power_dvd)
    then have "2 ^ nat (bitlen \<bar>n * 2 ^ c\<bar> - 53) dvd n * 2 ^ c"
      by (rule dvd_mult)
    then show ?thesis by (rule round53_exact)
  next
    case False
    with assms have eq: "\<bar>n\<bar> = 2 ^ 53" by simp
    have "bitlen \<bar>n\<bar> = 54"
      using bitlen_twopow_add_eq [of 0 53] by (simp add: eq)
    then have sh: "nat (bitlen \<bar>n * 2 ^ c\<bar> - 53) = Suc c" using bl by simp
    have "(2::int) ^ Suc c dvd 2 ^ 53 * 2 ^ c"
      by simp
    then have "(2::int) ^ Suc c dvd \<bar>n * 2 ^ c\<bar>" by (simp only: ab eq)
    then have "(2::int) ^ Suc c dvd n * 2 ^ c" by simp
    then show ?thesis using sh round53_exact [of "n * 2 ^ c"] by simp
  qed
qed

lemma small_scaled_below:
  assumes "\<bar>n :: int\<bar> \<le> 2 ^ 53"
  shows "\<bar>n * 2 ^ c\<bar> < 2 ^ (c + 1024)"
proof -
  have "\<bar>n * 2 ^ c\<bar> = \<bar>n\<bar> * 2 ^ c" by (simp add: abs_mult)
  also have "\<dots> \<le> 2 ^ 53 * 2 ^ c" using assms by simp
  also have "\<dots> = (2::int) ^ (c + 53)" by (simp add: power_add)
  also have "\<dots> < 2 ^ (c + 1024)" by (rule power_strict_increasing) simp_all
  finally show ?thesis .
qed

lemma of_units_py:
  assumes "\<bar>n\<bar> \<le> 2 ^ 53"
  shows "of_units (n * units_per_one) = py n"
proof -
  have r: "round53 (n * units_per_one) = n * units_per_one"
    unfolding units_per_one_def by (rule round53_small_scaled [OF assms])
  have "\<bar>n * units_per_one\<bar> < overflow_units"
    unfolding units_per_one_def overflow_units_def by (rule small_scaled_below [OF assms])
  then have "\<not> n * units_per_one \<ge> overflow_units"
    and "\<not> n * units_per_one \<le> - overflow_units"
    by linarith+
  then show ?thesis
    by (simp add: py_def of_units_def r Let_def)
qed

lemma float_add_py:
  assumes "\<bar>a + b\<bar> \<le> 2 ^ 53"
  shows "float_add (py a) (py b) = py (a + b)"
  using of_units_py [OF assms] by (simp add: py_def distrib_right)



lemma float_add_zero_py: "\<bar>n\<bar> \<le> 2 ^ 53 \<Longrightarrow> float_add (Finite 0) (py n) = py n"
  using float_add_py [of 0 n] by (simp add: py_0)


section \<open>The frame buffer holds the two most recent frames\<close>

lemma last_two_short: "length d \<le> 2 \<Longrightarrow> last_two d = d"
  by (simp add: last_two_def)

lemma length_last_two: "length (last_two xs) \<le> 2"
  by (simp add: last_two_def)

lemma last_two_Nil: "last_two xs = [] \<longleftrightarrow> xs = []"
proof (cases xs)
  case Nil
  then show ?thesis by (simp add: last_two_def)
next
  case (Cons x ys)
  have "\<not> Suc (length ys) \<le> Suc (length ys) - 2" by arith
  with Cons show ?thesis by (simp add: last_two_def)
qed

lemma deque_append_last_two: "length d \<le> 2 \<Longrightarrow> deque_append d x = last_two (d @ [x])"
  by (cases d; cases "tl d") (auto simp add: deque_append_def last_two_def)

lemma last_two_snoc: "last_two (last_two ys @ [x]) = last_two (ys @ [x])"
proof -
  have "length ys - Suc (length ys - 2) + (length ys - 2) = length ys - Suc 0"
    by arith
  then show ?thesis by (simp add: last_two_def min_def)
qed

lemma foldl_deque_append:
  "length d \<le> 2 \<Longrightarrow> foldl deque_append d xs = last_two (d @ xs)"
proof (induction xs rule: rev_induct)
  case Nil
  then show ?case by (simp add: last_two_short)
next
  case (snoc x xs)
  have "foldl deque_append d (xs @ [x]) = deque_append (last_two (d @ xs)) x"
    using snoc by simp
  also have "\<dots> = last_two (last_two (d @ xs) @ [x])"
    by (rule deque_append_last_two) (rule length_last_two)
  also have "\<dots> = last_two (d @ xs @ [x])"
    using last_two_snoc [of "d @ xs" x] by simp
  finally show ?case .
qed

lemma last_two_append_long: "2 \<le> length ys \<Longrightarrow> last_two (xs @ ys) = last_two ys"
  by (simp add: last_two_def)

lemma last_two_append_single: "xs \<noteq> [] \<Longrightarrow> last_two (xs @ [y]) = [last xs, y]"
proof -
  assume "xs \<noteq> []"
  then obtain zs z where xs: "xs = zs @ [z]" by (cases xs rule: rev_cases) auto
  show ?thesis by (simp add: xs last_two_def)
qed

lemma last_last_two: "xs \<noteq> [] \<Longrightarrow> last (last_two xs) = last xs"
proof -
  assume "xs \<noteq> []"
  then obtain zs z where xs: "xs = zs @ [z]" by (cases xs rule: rev_cases) auto
  show ?thesis by (simp add: xs last_two_def)
qed

lemma last_two_map: "last_two (map f xs) = map f (last_two xs)"
  by (simp add: last_two_def drop_map)

lemma set_last_two: "set (last_two xs) \<subseteq> set xs"
  by (simp add: last_two_def set_drop_subset)

section \<open>The loops of MaxAndSkipEnv and NoopResetEnv\<close>

lemma skip_loop_run:
  assumes "run e (replicate n action) s = Inr (rs, s')"
    and "n \<le> k"
    and "\<forall>r \<in> set (butlast rs). \<not> done_of r"
    and "n = k \<or> (rs \<noteq> [] \<and> done_of (last rs))"
  shows "skip_loop e action k s buf acc latest =
         Inr (s', foldl deque_append buf (map obs_of rs),
              foldl float_add acc (map reward_of rs),
              if rs = [] then latest else Some (done_of (last rs), info_of (last rs)))"
  using assms
proof (induction k arbitrary: n s buf acc latest rs)
  case 0
  then show ?case by simp
next
  case (Suc k)
  show ?case
  proof (cases n)
    case 0
    with Suc.prems show ?thesis by simp
  next
    case (Suc n')
    with Suc.prems(1) obtain r s1 rs1 where
      st: "step e action s = Inr (r, s1)" and rn: "run e (replicate n' action) s1 = Inr (rs1, s')"
      and rs: "rs = r # rs1"
      by (auto split: sum.splits prod.splits)
    obtain ob rw dn inf where r: "r = (ob, rw, dn, inf)" by (cases r)
    have len: "length rs1 = n'" using run_length [OF rn] by simp
    show ?thesis
    proof (cases dn)
      case True
      have "rs1 = []"
      proof (rule ccontr)
        assume "rs1 \<noteq> []"
        then have "r \<in> set (butlast rs)" using rs by simp
        with Suc.prems(3) r True show False by fastforce
      qed
      with len rn have "s' = s1" by simp
      with st r rs True \<open>rs1 = []\<close> show ?thesis by (simp add: Let_def)
    next
      case False
      have p2: "n' \<le> k" using Suc.prems(2) \<open>n = Suc n'\<close> by simp
      have p3: "\<forall>r \<in> set (butlast rs1). \<not> done_of r"
        using Suc.prems(3) rs by (auto split: if_splits)
      have p4: "n' = k \<or> (rs1 \<noteq> [] \<and> done_of (last rs1))"
        using Suc.prems(4) rs r False \<open>n = Suc n'\<close> by (auto split: if_splits)
      have IH: "skip_loop e action k s1 (deque_append buf ob) (float_add acc rw)
                  (Some (dn, inf)) =
         Inr (s', foldl deque_append (deque_append buf ob) (map obs_of rs1),
              foldl float_add (float_add acc rw) (map reward_of rs1),
              if rs1 = [] then Some (dn, inf) else Some (done_of (last rs1), info_of (last rs1)))"
        by (rule Suc.IH [OF rn p2 p3 p4])
      show ?thesis using st r rs False IH by (simp add: Let_def)
    qed
  qed
qed

lemma np_stack_ok:
  "B \<noteq> [] \<Longrightarrow> \<forall>f \<in> set B. length f = w \<Longrightarrow> np_stack B = Inr B"
  by (cases B) (auto simp add: np_stack_def list_all_iff)



lemma MaxAndSkipEnv_step_run:
  assumes rn: "run e (replicate n action) s = Inr (rs, s')"
    and n1: "1 \<le> n" and nk: "int n \<le> skip"
    and nd: "\<forall>r \<in> set (butlast rs). \<not> done_of r"
    and fin: "int n = skip \<or> done_of (last rs)"
    and lb: "length buf \<le> 2"
    and shape: "\<forall>f \<in> set (last_two (buf @ map obs_of rs)). length f = w"
  shows "step (MaxAndSkipEnv_methods e skip) action \<lparr>ms_env = s, obs_buffer = buf\<rparr> =
         Inr ((np_max_axis0 (last_two (buf @ map obs_of rs)),
               foldl float_add (Finite 0) (map reward_of rs),
               done_of (last rs), info_of (last rs)),
              \<lparr>ms_env = s', obs_buffer = last_two (buf @ map obs_of rs)\<rparr>)"
proof -
  have len: "length rs = n" using run_length [OF rn] by simp
  then have ne: "rs \<noteq> []" using n1 by auto
  have p2: "n \<le> nat skip" using nk by simp
  have p4: "n = nat skip \<or> (rs \<noteq> [] \<and> done_of (last rs))" using fin ne by auto
  have loop: "skip_loop e action (nat skip) s buf (Finite 0) None =
         Inr (s', last_two (buf @ map obs_of rs), foldl float_add (Finite 0) (map reward_of rs),
              Some (done_of (last rs), info_of (last rs)))"
    using skip_loop_run [OF rn p2 nd p4, of buf "Finite 0" None] ne foldl_deque_append [OF lb]
    by simp
  have bne: "last_two (buf @ map obs_of rs) \<noteq> []"
    using ne by (simp add: last_two_Nil)
  have st: "np_stack (last_two (buf @ map obs_of rs)) = Inr (last_two (buf @ map obs_of rs))"
    by (rule np_stack_ok [OF bne shape])
  show ?thesis
    by (simp add: MaxAndSkipEnv_methods_def MaxAndSkipEnv_step_def loop st)
qed

lemma noop_loop_run:
  "run e (replicate n 0) s = Inr (rs, s') \<Longrightarrow>
   noop_loop e n s obs = Inr (s', if rs = [] then obs else Some (obs_of (last rs)))"
proof (induction n arbitrary: s obs rs)
  case 0
  then show ?case by simp
next
  case (Suc n)
  from Suc.prems obtain r s1 rs1 where
    st: "step e 0 s = Inr (r, s1)" and rn: "run e (replicate n 0) s1 = Inr (rs1, s')"
    and rs: "rs = r # rs1"
    by (auto split: sum.splits prod.splits)
  obtain ob rw dn inf where r: "r = (ob, rw, dn, inf)" by (cases r)
  show ?case using st r rs Suc.IH [OF rn, of "Some ob"] by simp
qed

section \<open>MaxAndSkipEnv: step\<close>




section \<open>MaxAndSkipEnv: the buffer across step calls\<close>

text \<open>
  Claim C1, as stated, fails: the buffer is a field of the wrapper and only
  \<^verbatim>\<open>_reset\<close> clears it. With \<open>skip = 4\<close>, a first step observes the frames
  \<open>[10]\<close>, \<open>[9]\<close>, \<open>[8]\<close>, \<open>[7]\<close>; the second step observes only
  \<open>[6]\<close>, with \<open>done\<close> set, and returns the maximum over the buffer
  \<open>[[7], [6]]\<close>, which is the frame \<open>[7]\<close> of the first call.
\<close>

theorem MaxAndSkipEnv_buffer_persists_counterexample:
  "run (scripted_env [''NOOP''] :: (scripted, unit, int) env) [0, 0, 0, 0]
     ([([10], py 1, False, 3), ([9], py 1, False, 3), ([8], py 1, False, 3), ([7], py 1, False, 3),
       ([6], py 1, True, 3)], 3) =
     Inr ([([10], py 1, False, 0), ([9], py 1, False, 0), ([8], py 1, False, 0), ([7], py 1, False, 0)],
          ([([6], py 1, True, 3)], 3)) \<and>
   step (MaxAndSkipEnv_methods (scripted_env [''NOOP''] :: (scripted, unit, int) env) 4) 0
     \<lparr>ms_env = ([([10], py 1, False, 3), ([9], py 1, False, 3), ([8], py 1, False, 3),
                  ([7], py 1, False, 3), ([6], py 1, True, 3)], 3),
      obs_buffer = []\<rparr> =
     Inr (([8], py 4, False, 0),
          \<lparr>ms_env = ([([6], py 1, True, 3)], 3), obs_buffer = [[8], [7]]\<rparr>) \<and>
   run (scripted_env [''NOOP''] :: (scripted, unit, int) env) [0] ([([6], py 1, True, 3)], 3) =
     Inr ([([6], py 1, True, 0)], ([], 3)) \<and>
   step (MaxAndSkipEnv_methods (scripted_env [''NOOP''] :: (scripted, unit, int) env) 4) 0
     \<lparr>ms_env = ([([6], py 1, True, 3)], 3), obs_buffer = [[8], [7]]\<rparr> =
     Inr (([7], py 1, True, 0), \<lparr>ms_env = ([], 3), obs_buffer = [[7], [6]]\<rparr>)"
  by (simp add: MaxAndSkipEnv_methods_def MaxAndSkipEnv_step_def scripted_env_simps
      eval_nat_numeral deque_append_def np_stack_def Let_def float_add_zero_py float_add_py)

text \<open>
  Claim C1, amended. The buffer persists across step calls. For every pair of consecutive
  step calls, the buffer from which the second call computes its frame holds the last two
  frames observed during the second call when that call makes at least two inner steps;
  when it makes exactly one, the buffer holds the last frame observed during the first
  call and the one frame of the second.
\<close>

theorem MaxAndSkipEnv_buffer_across_steps:
  assumes "run e (replicate n1 a1) s0 = Inr (rs1, s1)"
    and "1 \<le> n1" and "int n1 \<le> skip"
    and "\<forall>r \<in> set (butlast rs1). \<not> done_of r"
    and "int n1 = skip \<or> done_of (last rs1)"
    and "run e (replicate n2 a2) s1 = Inr (rs2, s2)"
    and "1 \<le> n2" and "int n2 \<le> skip"
    and "\<forall>r \<in> set (butlast rs2). \<not> done_of r"
    and "int n2 = skip \<or> done_of (last rs2)"
    and "length buf0 \<le> 2"
    and "\<forall>f \<in> set (buf0 @ map obs_of rs1 @ map obs_of rs2). length f = w"
  shows "\<exists>r1 self1 r2 self2.
           step (MaxAndSkipEnv_methods e skip) a1 \<lparr>ms_env = s0, obs_buffer = buf0\<rparr> =
             Inr (r1, self1) \<and>
           step (MaxAndSkipEnv_methods e skip) a2 self1 = Inr (r2, self2) \<and>
           obs_buffer self2 =
             (if 2 \<le> n2 then map obs_of (last_two rs2)
              else [obs_of (last rs1), obs_of (last rs2)]) \<and>
           obs_of r2 = np_max_axis0 (obs_buffer self2)"
proof -
  let ?B1 = "last_two (buf0 @ map obs_of rs1)"
  let ?B2 = "last_two (?B1 @ map obs_of rs2)"
  have l1: "length rs1 = n1" and l2: "length rs2 = n2"
    using run_length [OF assms(1)] run_length [OF assms(6)] by simp_all
  have ne1: "rs1 \<noteq> []" and ne2: "rs2 \<noteq> []" using l1 l2 assms(2,7) by auto
  have sh1: "\<forall>f \<in> set ?B1. length f = w"
    using assms(12) set_last_two [of "buf0 @ map obs_of rs1"] by auto
  have "set ?B2 \<subseteq> set ?B1 \<union> set (map obs_of rs2)"
    using set_last_two [of "?B1 @ map obs_of rs2"] by simp
  moreover have "set ?B1 \<subseteq> set buf0 \<union> set (map obs_of rs1)"
    using set_last_two [of "buf0 @ map obs_of rs1"] by simp
  ultimately have "set ?B2 \<subseteq> set (buf0 @ map obs_of rs1 @ map obs_of rs2)"
    unfolding set_append by blast
  then have sh2: "\<forall>f \<in> set ?B2. length f = w"
    using assms(12) by blast
  have c1: "step (MaxAndSkipEnv_methods e skip) a1 \<lparr>ms_env = s0, obs_buffer = buf0\<rparr> =
         Inr ((np_max_axis0 ?B1, foldl float_add (Finite 0) (map reward_of rs1),
               done_of (last rs1),
               info_of (last rs1)),
              \<lparr>ms_env = s1, obs_buffer = ?B1\<rparr>)"
    by (rule MaxAndSkipEnv_step_run [OF assms(1-5) assms(11) sh1])
  have c2: "step (MaxAndSkipEnv_methods e skip) a2 \<lparr>ms_env = s1, obs_buffer = ?B1\<rparr> =
         Inr ((np_max_axis0 ?B2, foldl float_add (Finite 0) (map reward_of rs2),
               done_of (last rs2),
               info_of (last rs2)),
              \<lparr>ms_env = s2, obs_buffer = ?B2\<rparr>)"
    by (rule MaxAndSkipEnv_step_run [OF assms(6-10) length_last_two sh2])
  have B2: "?B2 = (if 2 \<le> n2 then map obs_of (last_two rs2)
              else [obs_of (last rs1), obs_of (last rs2)])"
  proof (cases "2 \<le> n2")
    case True
    then show ?thesis using l2 by (simp add: last_two_append_long last_two_map)
  next
    case False
    then have "n2 = 1" using assms(7) by simp
    then obtain r where r: "rs2 = [r]" using l2 by (cases rs2) auto
    have b1: "?B1 \<noteq> []" using ne1 by (simp add: last_two_Nil)
    have "last ?B1 = obs_of (last rs1)"
      using ne1 by (simp add: last_last_two last_map)
    then show ?thesis using False r last_two_append_single [OF b1] by simp
  qed
  show ?thesis using c1 c2 B2 by simp
qed

theorem MaxAndSkipEnv_buffer_across_steps_witness:
  "\<exists>r1 self1 r2 self2.
     step (MaxAndSkipEnv_methods (scripted_env [''NOOP''] :: (scripted, unit, int) env) 2) 0
       \<lparr>ms_env = ([([1], py 1, False, 3), ([2], py 1, False, 3), ([3], py 1, False, 3),
                    ([4], py 1, False, 3)], 3), obs_buffer = []\<rparr> = Inr (r1, self1) \<and>
     step (MaxAndSkipEnv_methods (scripted_env [''NOOP''] :: (scripted, unit, int) env) 2) 0
       self1 = Inr (r2, self2) \<and>
     obs_buffer self2 = [[3], [4]] \<and>
     obs_of r2 = np_max_axis0 (obs_buffer self2)"
proof -
  let ?e = "scripted_env [''NOOP''] :: (scripted, unit, int) env"
  let ?rs1 = "[([1], py 1, False, 0), ([2], py 1, False, 0)] :: (frame \<times> pyfloat \<times> bool \<times> int) list"
  let ?rs2 = "[([3], py 1, False, 0), ([4], py 1, False, 0)] :: (frame \<times> pyfloat \<times> bool \<times> int) list"
  have h1: "run ?e (replicate 2 0)
              ([([1], py 1, False, 3), ([2], py 1, False, 3), ([3], py 1, False, 3), ([4], py 1, False, 3)], 3) =
            Inr (?rs1, ([([3], py 1, False, 3), ([4], py 1, False, 3)], 3))"
    by (simp add: scripted_env_simps numeral_2_eq_2)
  have h2: "1 \<le> (2::nat)" by simp
  have h3: "int 2 \<le> 2" by simp
  have h4: "\<forall>r \<in> set (butlast ?rs1). \<not> done_of r" by simp
  have h5: "int 2 = 2 \<or> done_of (last ?rs1)" by simp
  have h6: "run ?e (replicate 2 0) ([([3], py 1, False, 3), ([4], py 1, False, 3)], 3) =
            Inr (?rs2, ([], 3))"
    by (simp add: scripted_env_simps numeral_2_eq_2)
  have h9: "\<forall>r \<in> set (butlast ?rs2). \<not> done_of r" by simp
  have h10: "int 2 = 2 \<or> done_of (last ?rs2)" by simp
  have h11: "length ([] :: frame list) \<le> 2" by simp
  have h12: "\<forall>f \<in> set ([] @ map obs_of ?rs1 @ map obs_of ?rs2). length f = 1" by simp
  show ?thesis
    using MaxAndSkipEnv_buffer_across_steps [OF h1 h2 h3 h4 h5 h6 h2 h3 h9 h10 h11 h12]
    by (simp add: last_two_def)
qed

section \<open>NoopResetEnv: reset\<close>

text \<open>
  Claim C9. A reset of NoopResetEnv calls the reset of the inner environment and drops its
  observation, asks the generator for an integer between 1 and \<open>noop_max\<close>
  (\<^verbatim>\<open>randint(1, noop_max + 1)\<close>), and for the \<open>n \<ge> 1\<close> it draws makes exactly
  \<open>n\<close> inner steps with action 0 and returns the observation of the last.
\<close>

theorem NoopResetEnv_reset_spec:
  assumes "reset e s g = Inr (obs0, s1, g1)"
    and "randint 1 (noop_max + 1) g1 = Inr (n, g2)"
    and "1 \<le> n"
    and "run e (replicate (nat n) 0) s1 = Inr (rs, s2)"
  shows "reset (NoopResetEnv_methods randint (traced e) noop_max) (s, tr) g =
         Inr (obs_of (last rs), (s2, tr @ Reset # replicate (nat n) (Step 0)), g2)"
proof -
  have rt: "run (traced e) (replicate (nat n) 0) (s1, tr @ [Reset]) =
            Inr (rs, (s2, tr @ Reset # replicate (nat n) (Step 0)))"
    using assms(4) by (simp add: run_traced)
  have ne: "rs \<noteq> []" using run_length [OF assms(4)] assms(3) by auto
  have loop: "noop_loop (traced e) (nat n) (s1, tr @ [Reset]) None =
              Inr ((s2, tr @ Reset # replicate (nat n) (Step 0)), Some (obs_of (last rs)))"
    using noop_loop_run [OF rt, of None] ne by simp
  show ?thesis
    using reset_traced [OF assms(1), of tr] assms(2) loop
    by (simp add: NoopResetEnv_methods_def NoopResetEnv_reset_def)
qed

theorem NoopResetEnv_reset_spec_witness:
  "reset (NoopResetEnv_methods tape_randint
            (traced (scripted_env [''NOOP''] :: (scripted, int list, int) env)) 30)
     (([([1], py 1, False, 3), ([2], py 1, True, 3), ([3], py 1, False, 3)], 3), []) [1] =
   Inr ([2], (([([3], py 1, False, 3)], 3), [Reset, Step 0, Step 0]), [])"
proof -
  let ?e = "scripted_env [''NOOP''] :: (scripted, int list, int) env"
  let ?s = "([([1], py 1, False, 3), ([2], py 1, True, 3), ([3], py 1, False, 3)], 3) :: scripted"
  have h1: "reset ?e ?s [1] = Inr ([0], ?s, [1])"
    by (simp add: scripted_env_simps)
  have h2: "tape_randint 1 (30 + 1) [1] = Inr (2, [])"
    by (simp add: tape_randint_def)
  have h3: "1 \<le> (2::int)" by simp
  have h4: "run ?e (replicate (nat 2) 0) ?s =
            Inr ([([1], py 1, False, 0), ([2], py 1, True, 0)], ([([3], py 1, False, 3)], 3))"
    by (simp add: scripted_env_simps numeral_2_eq_2)
  show ?thesis
    using NoopResetEnv_reset_spec
      [where randint = tape_randint and noop_max = 30 and tr = "[]", OF h1 h2 h3 h4]
    by (simp add: numeral_2_eq_2)
qed

end
